theory Spec2Isabelle
  imports Main
begin

unbundle bit_operations_syntax

section \<open>Limits (utils.h)\<close>

definition MAX_INPUT_SIZE :: nat where "MAX_INPUT_SIZE = 4096"
definition MAX_ARGS :: nat where "MAX_ARGS = 64"
definition MAX_TOKENS :: nat where "MAX_TOKENS = 128"
definition MAX_JOBS :: nat where "MAX_JOBS = 100"

section \<open>C strings, character classes and the allocator\<close>

text \<open>
  A C string ends at its first NUL byte: \<open>cstring\<close> is what \<open>strlen\<close>, \<open>strdup\<close> and
  \<open>strcmp\<close> see of a buffer. \<open>isspace\<close> and \<open>isalnum\<close> are the functions of
  \<open>ctype.h\<close> in the C locale.
\<close>

definition cstring :: "string \<Rightarrow> string" where
  "cstring s = takeWhile (\<lambda>c. c \<noteq> CHR 0x00) s"

definition isspace :: "char \<Rightarrow> bool" where
  "isspace c \<longleftrightarrow> c = CHR 0x20 \<or> c = CHR 0x09 \<or> c = CHR 0x0A \<or> c = CHR 0x0B
                \<or> c = CHR 0x0C \<or> c = CHR 0x0D"

definition isalnum :: "char \<Rightarrow> bool" where
  "isalnum c \<longleftrightarrow> (let n = (of_char c :: nat)
                 in (48 \<le> n \<and> n \<le> 57) \<or> (65 \<le> n \<and> n \<le> 90) \<or> (97 \<le> n \<and> n \<le> 122))"

text \<open>
  \<open>malloc\<close> and \<open>strdup\<close> may fail. A function that allocates takes a \<open>heap\<close>:
  \<open>mem k\<close> tells whether the allocation request number \<open>k\<close> (counted from 0 within one
  top-level call) succeeds. The functions thread the count of requests made so far.
\<close>

type_synonym heap = "nat \<Rightarrow> bool"

type_synonym environ = "string \<rightharpoonup> string"

section \<open>Lexer (parser.c, tokenize)\<close>

definition process_escape :: "char \<Rightarrow> char" where
  "process_escape c =
     (if c = CHR ''n'' then CHR 0x0A
      else if c = CHR ''t'' then CHR 0x09
      else if c = CHR ''r'' then CHR 0x0D
      else if c = CHR 0x5C then CHR 0x5C
      else if c = CHR 0x22 then CHR 0x22
      else if c = CHR 0x27 then CHR 0x27
      else if c = CHR ''0'' then CHR 0x00
      else c)"

text \<open>
  \<open>expand_variable\<close>: NULL (\<open>None\<close>) for an empty name, for an unset variable, and also
  when the \<open>strdup\<close> of the value fails. A variable that is set makes one allocation
  request; \<open>env\<close> is the process environment as \<open>getenv\<close> reads it.
\<close>

definition expand_variable :: "heap \<Rightarrow> nat \<Rightarrow> environ \<Rightarrow> string \<Rightarrow> string option \<times> nat" where
  "expand_variable mem k env var_name =
     (if var_name = [] then (None, k)
      else case env var_name of
             None \<Rightarrow> (None, k)
           | Some v \<Rightarrow> (if mem k then Some (cstring v) else None, Suc k))"

datatype lex_state = STATE_NORMAL | STATE_SINGLE_QUOTE | STATE_DOUBLE_QUOTE | STATE_ESCAPE

datatype lex_error =
    LexMallocFailed | LexStrdupFailed | UnterminatedSingleQuote | UnterminatedDoubleQuote

text \<open>
  The local variables of \<open>tokenize\<close>: \<open>toks\<close> holds the first \<open>token_count\<close> entries of
  the token array, \<open>token_buf\<close> the first \<open>token_buf_pos\<close> characters of the buffer, so
  \<open>token_count = length toks\<close> and \<open>token_buf_pos = length token_buf\<close>; \<open>allocs\<close> counts
  the allocation requests made.
\<close>

record lexer =
  state :: lex_state
  toks :: "string list"
  token_buf :: string
  allocs :: nat

text \<open>\<open>if (token_buf_pos < MAX_INPUT_SIZE - 1) token_buf[token_buf_pos++] = c;\<close>\<close>

definition put_char :: "string \<Rightarrow> char \<Rightarrow> string" where
  "put_char buf c = (if length buf < MAX_INPUT_SIZE - 1 then buf @ [c] else buf)"

text \<open>The loop that copies an expanded value: it stops at the end of the value or of the buffer.\<close>

fun put_string :: "string \<Rightarrow> string \<Rightarrow> string" where
  "put_string buf [] = buf"
| "put_string buf (c # cs) =
     (if length buf < MAX_INPUT_SIZE - 1 then put_string (buf @ [c]) cs else buf)"

text \<open>
  Reading a variable name into \<open>var_name[256]\<close>; the first argument is the room left
  (\<open>255 - var_pos\<close>). The result is the name and the rest of the input.
\<close>

fun scan_name :: "nat \<Rightarrow> string \<Rightarrow> string \<times> string" where
  "scan_name 0 p = ([], p)"
| "scan_name (Suc n) [] = ([], [])"
| "scan_name (Suc n) (c # cs) =
     (if isalnum c \<or> c = CHR ''_''
      then (let (nm, r) = scan_name n cs in (c # nm, r))
      else ([], c # cs))"

fun scan_braced :: "nat \<Rightarrow> string \<Rightarrow> string \<times> string" where
  "scan_braced 0 p = ([], p)"
| "scan_braced (Suc n) [] = ([], [])"
| "scan_braced (Suc n) (c # cs) =
     (if c = CHR ''}'' then ([], c # cs)
      else if isalnum c \<or> c = CHR ''_''
      then (let (nm, r) = scan_braced n cs in (c # nm, r))
      else ([], c # cs))"

text \<open>The input after the \<open>$\<close>: \<open>${VAR}\<close> or \<open>$VAR\<close>.\<close>

definition scan_variable :: "string \<Rightarrow> string \<times> string" where
  "scan_variable p =
     (case p of
        [] \<Rightarrow> scan_name 255 p
      | c # cs \<Rightarrow>
          if c = CHR ''{''
          then (let (nm, r) = scan_braced 255 cs
                in (nm, case r of [] \<Rightarrow> r | d # r' \<Rightarrow> if d = CHR ''}'' then r' else r))
          else scan_name 255 p)"

text \<open>\<open>isalnum(p[1]) || p[1] == '_' || p[1] == '{'\<close>, where \<open>p[1]\<close> is NUL at the end.\<close>

definition starts_variable :: "string \<Rightarrow> bool" where
  "starts_variable cs =
     (case cs of [] \<Rightarrow> False | d # _ \<Rightarrow> isalnum d \<or> d = CHR ''_'' \<or> d = CHR ''{'')"

definition expand_step :: "heap \<Rightarrow> environ \<Rightarrow> lexer \<Rightarrow> string \<Rightarrow> lexer \<times> string" where
  "expand_step mem env L cs =
     (let (var_name, p') = scan_variable cs;
          (var_value, k') = expand_variable mem (allocs L) env var_name
      in (L\<lparr>token_buf := (case var_value of
                               None \<Rightarrow> token_buf L
                             | Some v \<Rightarrow> put_string (token_buf L) v),
             allocs := k'\<rparr>, p'))"

text \<open>
  One iteration of the \<open>while\<close> loop of \<open>tokenize\<close> at the input \<open>c # cs\<close> (\<open>p\<close> points
  to \<open>c\<close>).
  The result is the new locals and the new \<open>p\<close>, or the error of a failed \<open>strdup\<close>.
\<close>

definition lex_step :: "heap \<Rightarrow> environ \<Rightarrow> lexer \<Rightarrow> char \<Rightarrow> string \<Rightarrow> lex_error + lexer \<times> string" where
  "lex_step mem env L c cs =
     (case state L of
        STATE_NORMAL \<Rightarrow>
          if isspace c then
            (if token_buf L \<noteq> [] then
               (if mem (allocs L)
                then Inr (L\<lparr>toks := toks L @ [cstring (token_buf L)], token_buf := [],
                            allocs := Suc (allocs L)\<rparr>, dropWhile isspace (c # cs))
                else Inl LexStrdupFailed)
             else Inr (L, dropWhile isspace (c # cs)))
          else if c = CHR 0x27 then Inr (L\<lparr>state := STATE_SINGLE_QUOTE\<rparr>, cs)
          else if c = CHR 0x22 then Inr (L\<lparr>state := STATE_DOUBLE_QUOTE\<rparr>, cs)
          else if c = CHR ''$'' \<and> starts_variable cs then Inr (expand_step mem env L cs)
          else if c = CHR 0x5C then Inr (L\<lparr>token_buf := put_char (token_buf L) c\<rparr>, cs)
          else Inr (L\<lparr>token_buf := put_char (token_buf L) c\<rparr>, cs)
      | STATE_SINGLE_QUOTE \<Rightarrow>
          if c = CHR 0x27 then Inr (L\<lparr>state := STATE_NORMAL\<rparr>, cs)
          else Inr (L\<lparr>token_buf := put_char (token_buf L) c\<rparr>, cs)
      | STATE_DOUBLE_QUOTE \<Rightarrow>
          if c = CHR 0x5C then Inr (L\<lparr>state := STATE_ESCAPE\<rparr>, cs)
          else if c = CHR ''$'' \<and> starts_variable cs then Inr (expand_step mem env L cs)
          else if c = CHR 0x22 then Inr (L\<lparr>state := STATE_NORMAL\<rparr>, cs)
          else Inr (L\<lparr>token_buf := put_char (token_buf L) c\<rparr>, cs)
      | STATE_ESCAPE \<Rightarrow>
          Inr (L\<lparr>token_buf := put_char (token_buf L) (process_escape c),
                 state := STATE_DOUBLE_QUOTE\<rparr>, cs))"

lemma scan_name_Nil [simp]: "scan_name n [] = ([], [])"
  by (cases n) simp_all

lemma scan_braced_Nil [simp]: "scan_braced n [] = ([], [])"
  by (cases n) simp_all

lemma scan_name_length: "length (snd (scan_name n p)) \<le> length p"
  by (induction n p rule: scan_name.induct) (auto split: prod.splits)

lemma scan_braced_length: "length (snd (scan_braced n p)) \<le> length p"
  by (induction n p rule: scan_braced.induct) (auto split: prod.splits)

lemma scan_variable_length: "length (snd (scan_variable p)) \<le> length p"
proof (cases p)
  case Nil
  then show ?thesis by (simp add: scan_variable_def)
next
  case (Cons c cs)
  show ?thesis
  proof (cases "c = CHR ''{''")
    case True
    have "length (snd (scan_braced 255 cs)) \<le> length cs"
      by (rule scan_braced_length)
    then show ?thesis
      using Cons True
      by (auto simp: scan_variable_def split: prod.splits list.splits)
  next
    case False
    then show ?thesis
      using Cons scan_name_length [of 255 p] by (simp add: scan_variable_def)
  qed
qed

lemma expand_step_length: "length (snd (expand_step mem env L cs)) \<le> length cs"
  using scan_variable_length [of cs]
  by (auto simp: expand_step_def split: prod.splits)

lemma lex_step_length:
  assumes "lex_step mem env L c cs = Inr (L', p')"
  shows "length p' \<le> length cs"
proof -
  have ws: "isspace c \<Longrightarrow> length (dropWhile isspace (c # cs)) \<le> length cs"
    by (simp add: length_dropWhile_le)
  show ?thesis
    using assms ws expand_step_length [of mem env L cs]
    by (cases "state L") (auto simp: lex_step_def split: if_splits)
qed

text \<open>
  The \<open>while\<close> loop of \<open>tokenize\<close>: it runs while \<open>p\<close> is not at the end of the line and
  \<open>token_count < MAX_TOKENS - 1\<close>. Every iteration moves \<open>p\<close> forward, which is the
  termination argument.
\<close>

function tokenize_loop :: "heap \<Rightarrow> environ \<Rightarrow> lexer \<Rightarrow> string \<Rightarrow> lex_error + lexer" where
  "tokenize_loop mem env L [] = Inr L"
| "tokenize_loop mem env L (c # cs) =
     (if length (toks L) < MAX_TOKENS - 1
      then (case lex_step mem env L c cs of
              Inl e \<Rightarrow> Inl e
            | Inr (L', p') \<Rightarrow> tokenize_loop mem env L' p')
      else Inr L)"
  by pat_completeness auto
termination
  by (relation "measure (\<lambda>(mem, env, L, p). length p)")
     (auto dest: lex_step_length)

text \<open>
  \<open>tokenize\<close>. The result is an error (the C function returns -1 and sets \<open>*tokens\<close> to
  NULL), or \<open>Inr None\<close> (it returns 0 and sets \<open>*tokens\<close> to NULL), or \<open>Inr (Some ts)\<close>
  (it returns the number of tokens and \<open>*tokens\<close> is the array \<open>ts\<close>). Both pointer
  arguments are taken to be non-null, as at the call in \<open>main\<close>.
\<close>

definition tokenize :: "heap \<Rightarrow> environ \<Rightarrow> string \<Rightarrow> lex_error + string list option" where
  "tokenize mem env input =
     (if \<not> mem 0 then Inl LexMallocFailed
      else if \<not> mem 1 then Inl LexMallocFailed
      else let p = dropWhile isspace (cstring input) in
        if p = [] then Inr None
        else case tokenize_loop mem env
                    \<lparr>state = STATE_NORMAL, toks = [], token_buf = [], allocs = 2\<rparr> p of
               Inl e \<Rightarrow> Inl e
             | Inr L \<Rightarrow>
                 if state L = STATE_SINGLE_QUOTE then Inl UnterminatedSingleQuote
                 else if state L = STATE_DOUBLE_QUOTE \<or> state L = STATE_ESCAPE
                 then Inl UnterminatedDoubleQuote
                 else if token_buf L \<noteq> [] then
                   (if mem (allocs L) then Inr (Some (toks L @ [cstring (token_buf L)]))
                    else Inl LexStrdupFailed)
                 else Inr (Some (toks L)))"

text \<open>The \<open>int\<close> that \<open>tokenize\<close> returns.\<close>

definition tokenize_ret :: "lex_error + string list option \<Rightarrow> int" where
  "tokenize_ret r = (case r of Inl e \<Rightarrow> - 1 | Inr None \<Rightarrow> 0 | Inr (Some ts) \<Rightarrow> int (length ts))"

section \<open>Parser (parser.c, parse_command and parse_pipeline)\<close>

text \<open>
  Both parsers return -1 on every error; the model keeps which error it was. \<open>diagnostic\<close>
  is the line written to stderr (the allocation failures print through \<open>perror\<close>, and
  an empty token array prints nothing).
\<close>

datatype parse_error =
    EmptyCommand | ParseMallocFailed | ParseStrdupFailed
  | MissingOperand string | MultipleInput | MultipleOutput
  | AmpNotAtEnd | UnexpectedPipe

definition diagnostic :: "parse_error \<Rightarrow> string option" where
  "diagnostic e =
     (case e of
        MissingOperand t \<Rightarrow>
          Some (''myshell: syntax error near unexpected token '' @ [CHR 0x27] @ t @ [CHR 0x27])
      | MultipleInput \<Rightarrow> Some ''myshell: syntax error: multiple input redirections''
      | MultipleOutput \<Rightarrow> Some ''myshell: syntax error: multiple output redirections''
      | AmpNotAtEnd \<Rightarrow> Some ''myshell: syntax error: & must be at end of command''
      | UnexpectedPipe \<Rightarrow>
          Some (''myshell: syntax error near unexpected token '' @ [CHR 0x27] @ ''|'' @ [CHR 0x27])
      | _ \<Rightarrow> None)"

text \<open>
  \<open>Command\<close> (parser.h). \<open>argv\<close> is the array up to its NULL terminator; the two flags
  are the C ints 0 and 1.
\<close>

record Command =
  argv :: "string list"
  input_file :: "string option"
  output_file :: "string option"
  append_mode :: bool
  background :: bool

record Pipeline =
  commands :: "Command list"
  num_commands :: nat
  pipeline_background :: bool

text \<open>
  The \<open>while\<close> loop of \<open>parse_command\<close> over \<open>tokens[i ..]\<close>, with \<open>argc = length (argv cmd)\<close>
  and the count \<open>k\<close> of allocation requests made. A token is an operator when \<open>strcmp\<close>
  says that its spelling is that of the operator.
\<close>

fun parse_loop :: "heap \<Rightarrow> string list \<Rightarrow> Command \<Rightarrow> nat \<Rightarrow> parse_error + Command \<times> nat" where
  "parse_loop mem [] cmd k = Inr (cmd, k)"
| "parse_loop mem (t # ts) cmd k =
     (if \<not> length (argv cmd) < MAX_ARGS - 1 then Inr (cmd, k)
      else if t = ''<'' then
        (case ts of
           [] \<Rightarrow> Inl (MissingOperand ''<'')
         | f # ts' \<Rightarrow>
             if input_file cmd \<noteq> None then Inl MultipleInput
             else if \<not> mem k then Inl ParseStrdupFailed
             else parse_loop mem ts' (cmd\<lparr>input_file := Some f\<rparr>) (Suc k))
      else if t = ''>'' then
        (case ts of
           [] \<Rightarrow> Inl (MissingOperand ''>'')
         | f # ts' \<Rightarrow>
             if output_file cmd \<noteq> None then Inl MultipleOutput
             else if \<not> mem k then Inl ParseStrdupFailed
             else parse_loop mem ts' (cmd\<lparr>output_file := Some f, append_mode := False\<rparr>) (Suc k))
      else if t = ''>>'' then
        (case ts of
           [] \<Rightarrow> Inl (MissingOperand ''>>'')
         | f # ts' \<Rightarrow>
             if output_file cmd \<noteq> None then Inl MultipleOutput
             else if \<not> mem k then Inl ParseStrdupFailed
             else parse_loop mem ts' (cmd\<lparr>output_file := Some f, append_mode := True\<rparr>) (Suc k))
      else if t = ''&'' then
        (if ts \<noteq> [] then Inl AmpNotAtEnd
         else Inr (cmd\<lparr>background := True\<rparr>, k))
      else if \<not> mem k then Inl ParseStrdupFailed
      else parse_loop mem ts (cmd\<lparr>argv := argv cmd @ [t]\<rparr>) (Suc k))"

definition empty_command :: Command where
  "empty_command =
     \<lparr>argv = [], input_file = None, output_file = None, append_mode = False,
      background = False\<rparr>"

text \<open>
  \<open>parse_command\<close>, whose allocation requests are numbered from \<open>k\<close>; on success it gives
  the command and the number of requests made so far.
\<close>

definition parse_command :: "heap \<Rightarrow> nat \<Rightarrow> string list \<Rightarrow> parse_error + Command \<times> nat" where
  "parse_command mem k tokens =
     (if tokens = [] then Inl EmptyCommand
      else if \<not> mem k then Inl ParseMallocFailed
      else parse_loop mem tokens empty_command (Suc k))"

text \<open>
  The first loop of \<open>parse_pipeline\<close> over \<open>tokens[i ..]\<close>: \<open>seg\<close> is
  \<open>tokens[token_start .. i)\<close> and \<open>cmds\<close> is \<open>commands[0 .. cmd_index)\<close>. At the end it
  gives the commands parsed, the tokens after the last pipe, and the allocation count.
\<close>

fun split_loop ::
  "heap \<Rightarrow> string list \<Rightarrow> string list \<Rightarrow> Command list \<Rightarrow> nat
     \<Rightarrow> parse_error + Command list \<times> string list \<times> nat" where
  "split_loop mem [] seg cmds k = Inr (cmds, seg, k)"
| "split_loop mem (t # ts) seg cmds k =
     (if t = ''|'' then
        (if seg = [] then Inl UnexpectedPipe
         else if \<not> mem k then Inl ParseMallocFailed
         else case parse_command mem (Suc k) seg of
                Inl e \<Rightarrow> Inl e
              | Inr (c, k') \<Rightarrow> split_loop mem ts [] (cmds @ [c]) k')
      else split_loop mem ts (seg @ [t]) cmds k)"

definition parse_pipeline :: "heap \<Rightarrow> string list \<Rightarrow> parse_error + Pipeline" where
  "parse_pipeline mem tokens =
     (let pipe_count = length (filter (\<lambda>t. t = ''|'') tokens);
          has_background = (tokens \<noteq> [] \<and> last tokens = ''&'')
      in if \<not> mem 0 then Inl ParseMallocFailed
         else case split_loop mem tokens [] [] 1 of
                Inl e \<Rightarrow> Inl e
              | Inr (cmds, seg, k) \<Rightarrow>
                  if seg = [] then Inl UnexpectedPipe
                  else if \<not> mem k then Inl ParseMallocFailed
                  else case parse_command mem (Suc k)
                              (if has_background \<and> last seg = ''&'' then butlast seg else seg) of
                         Inl e \<Rightarrow> Inl e
                       | Inr (c, k') \<Rightarrow>
                           Inr \<lparr>commands = cmds @ [c], num_commands = pipe_count + 1,
                                pipeline_background = has_background\<rparr>)"

text \<open>
  The dispatch of \<open>main\<close> (shell.c): a line whose tokens include one spelled \<open>|\<close> goes to
  \<open>parse_pipeline\<close>, any other line to \<open>parse_command\<close>.
\<close>

definition has_pipe :: "string list \<Rightarrow> bool" where
  "has_pipe tokens \<longleftrightarrow> ''|'' \<in> set tokens"

definition parse_line :: "heap \<Rightarrow> string list \<Rightarrow> parse_error + Pipeline + Command" where
  "parse_line mem tokens =
     (if has_pipe tokens
      then (case parse_pipeline mem tokens of Inl e \<Rightarrow> Inl e | Inr pl \<Rightarrow> Inr (Inl pl))
      else (case parse_command mem 0 tokens of Inl e \<Rightarrow> Inl e | Inr (c, k) \<Rightarrow> Inr (Inr c)))"

section \<open>Job table (jobs.c)\<close>

text \<open>
  \<open>next_job_id\<close> and \<open>num_jobs\<close> are C ints. \<open>c_int x\<close> is the value an \<open>int\<close> holds
  after a computation whose mathematical result is \<open>x\<close>: 32 bits, two's complement,
  wrapping around (ISO C leaves signed overflow undefined; this is what the usual
  compilers produce).
\<close>

definition c_int :: "int \<Rightarrow> int" where
  "c_int x = signed_take_bit 31 x"

datatype JobStatus = JOB_RUNNING | JOB_STOPPED | JOB_DONE

record Job =
  job_id :: int
  pgid :: int
  command :: "string option"
  status :: JobStatus

text \<open>The three statics of jobs.c. \<open>job_table\<close> has \<open>MAX_JOBS\<close> entries.\<close>

record jobs_state =
  job_table :: "Job list"
  next_job_id :: int
  num_jobs :: int

definition init_jobs :: jobs_state where
  "init_jobs =
     \<lparr>job_table = replicate MAX_JOBS \<lparr>job_id = 0, pgid = 0, command = None, status = JOB_DONE\<rparr>,
      next_job_id = 1, num_jobs = 0\<rparr>"

text \<open>
  \<open>for (i = 0; i < MAX_JOBS; i++) if (P(job_table[i])) { ...; break/return; }\<close>:
  the first index whose entry satisfies \<open>P\<close>.
\<close>

fun first_index :: "(Job \<Rightarrow> bool) \<Rightarrow> Job list \<Rightarrow> nat option" where
  "first_index P [] = None"
| "first_index P (j # js) = (if P j then Some 0 else map_option Suc (first_index P js))"

text \<open>
  \<open>add_job\<close>; \<open>dup_ok\<close> tells whether its \<open>strdup\<close> succeeds. The result is the returned
  int and the new statics.
\<close>

definition add_job :: "bool \<Rightarrow> int \<Rightarrow> string \<Rightarrow> JobStatus \<Rightarrow> jobs_state \<Rightarrow> int \<times> jobs_state" where
  "add_job dup_ok pg cmd st s =
     (if int MAX_JOBS \<le> num_jobs s then (- 1, s)
      else case first_index (\<lambda>j. job_id j = 0) (job_table s) of
             None \<Rightarrow> (- 1, s)
           | Some slot \<Rightarrow>
               (let j = (job_table s ! slot)
                          \<lparr>job_id := next_job_id s, pgid := pg,
                           command := (if dup_ok then Some (cstring cmd) else None)\<rparr>;
                    s1 = s\<lparr>job_table := (job_table s)[slot := j],
                           next_job_id := c_int (next_job_id s + 1)\<rparr>
                in if \<not> dup_ok then (- 1, s1)
                   else (job_id j,
                         s1\<lparr>job_table := (job_table s)[slot := j\<lparr>status := st\<rparr>],
                            num_jobs := c_int (num_jobs s + 1)\<rparr>)))"

definition remove_job :: "int \<Rightarrow> jobs_state \<Rightarrow> jobs_state" where
  "remove_job jid s =
     (case first_index (\<lambda>j. job_id j = jid) (job_table s) of
        None \<Rightarrow> s
      | Some i \<Rightarrow>
          s\<lparr>job_table :=
               (job_table s)[i := \<lparr>job_id = 0, pgid = 0, command = None, status = JOB_DONE\<rparr>],
            num_jobs := c_int (num_jobs s - 1)\<rparr>)"

definition update_job_status :: "int \<Rightarrow> JobStatus \<Rightarrow> jobs_state \<Rightarrow> jobs_state" where
  "update_job_status jid st s =
     (case first_index (\<lambda>j. job_id j = jid) (job_table s) of
        None \<Rightarrow> s
      | Some i \<Rightarrow> s\<lparr>job_table := (job_table s)[i := (job_table s ! i)\<lparr>status := st\<rparr>]\<rparr>)"

definition update_job_status_by_pgid :: "int \<Rightarrow> JobStatus \<Rightarrow> jobs_state \<Rightarrow> jobs_state" where
  "update_job_status_by_pgid pg st s =
     (case first_index (\<lambda>j. job_id j \<noteq> 0 \<and> pgid j = pg) (job_table s) of
        None \<Rightarrow> s
      | Some i \<Rightarrow> s\<lparr>job_table := (job_table s)[i := (job_table s ! i)\<lparr>status := st\<rparr>]\<rparr>)"

text \<open>The loop of \<open>cleanup_jobs\<close> over the table, with \<open>num_jobs\<close> threaded through.\<close>

fun cleanup_loop :: "Job list \<Rightarrow> int \<Rightarrow> Job list \<times> int" where
  "cleanup_loop [] n = ([], n)"
| "cleanup_loop (j # js) n =
     (if job_id j \<noteq> 0 \<and> status j = JOB_DONE
      then (let (js', n') = cleanup_loop js (c_int (n - 1))
            in (j\<lparr>job_id := 0, pgid := 0, command := None\<rparr> # js', n'))
      else (let (js', n') = cleanup_loop js n in (j # js', n')))"

definition cleanup_jobs :: "jobs_state \<Rightarrow> jobs_state" where
  "cleanup_jobs s =
     (let (t, n) = cleanup_loop (job_table s) (num_jobs s)
      in s\<lparr>job_table := t, num_jobs := n\<rparr>)"

section \<open>Executor (executor.c)\<close>







text \<open>
  What the shell process sees of a call of the executor: it returns an int, or control
  never comes back to the caller (the process is a forked child, which execs or exits,
  or the built-in \<open>exit\<close> ended the shell).
\<close>

datatype exec_result = Return int | NoReturn

text \<open>
  The executor's results depend on the outcome of its system calls; \<open>sys\<close> holds these
  outcomes, as the shell process sees them, one field per call site:
  \<open>fork_ret i\<close> is what the fork for command \<open>i\<close> returns, \<open>waitpid_ret\<close> and
  \<open>waitpid_status\<close> are the return value and the status of the blocking \<open>waitpid\<close>
  (with \<open>WUNTRACED\<close>) on the last child, \<open>waitpid_nohang i\<close> those of the
  non-blocking \<open>waitpid\<close> on child \<open>i\<close> of a pipeline. The built-ins (builtins.c) act on
  the file system and the job table; \<open>execute_builtin\<close> stands for them.

  \<open>waitpid_status\<close> is the wait status of the last child's change of state. The blocking
  \<open>waitpid\<close> hands it to the executor when it returns the child's pid. It returns \<open>-1\<close>
  (\<open>ECHILD\<close>) instead when the child has been reaped before the call: the \<open>SIGCHLD\<close>
  handler of the shell (signals.c) calls \<open>waitpid\<close> for any child, and when it runs
  before the executor's call it takes the status of a child that has ended by then.
\<close>

record sys =
  dup_stdin :: int
  dup_stdout :: int
  open_input :: int
  dup2_input :: int
  open_output :: int
  dup2_output :: int
  malloc_pipe_fds :: bool
  pipe_ret :: "nat \<Rightarrow> int"
  malloc_pids :: bool
  fork_ret :: "nat \<Rightarrow> int"
  getpgid_ret :: int
  waitpid_ret :: int
  waitpid_status :: int
  waitpid_nohang :: "nat \<Rightarrow> int \<times> int"
  strdup_ok :: bool
  execute_builtin :: "string list \<Rightarrow> jobs_state \<Rightarrow> exec_result \<times> jobs_state"






text \<open>The fork loop of \<open>execute_pipeline\<close>, over the indices of the commands.\<close>

fun fork_all :: "sys \<Rightarrow> nat list \<Rightarrow> exec_result + int list" where
  "fork_all y [] = Inr []"
| "fork_all y (i # is) =
     (let pid = fork_ret y i in
      if pid = - 1 then Inl (Return (- 1))
      else if pid = 0 then Inl NoReturn
      else case fork_all y is of Inl r \<Rightarrow> Inl r | Inr pids \<Rightarrow> Inr (pid # pids))"



section \<open>Sessions of the job table\<close>

text \<open>The largest value of a C int (limits.h).\<close>

definition INT_MAX :: int where "INT_MAX = 2147483647"

text \<open>
  \<open>count_jobs\<close> is the number of slots in use (those whose \<open>job_id\<close> is not 0).
  \<open>jobs_inv\<close> says that the table has its \<open>MAX_JOBS\<close> slots and that \<open>num_jobs\<close> is the
  number of slots in use.
\<close>

definition count_jobs :: "jobs_state \<Rightarrow> nat" where
  "count_jobs s = length (filter (\<lambda>j. job_id j \<noteq> 0) (job_table s))"

definition jobs_inv :: "jobs_state \<Rightarrow> bool" where
  "jobs_inv s \<longleftrightarrow> length (job_table s) = MAX_JOBS \<and> num_jobs s = int (count_jobs s)"

text \<open>
  A session of the job table: the calls made after \<open>init_jobs\<close>, in order. \<open>AddJob ok\<close>
  is a call of \<open>add_job\<close> whose \<open>strdup\<close> succeeds (\<open>ok\<close>) or fails; \<open>run_ops\<close> gives the
  values the calls of \<open>add_job\<close> return, in order, and the statics at the end.
\<close>

datatype job_op =
    AddJob bool int string JobStatus
  | RemoveJob int
  | CleanupJobs
  | UpdateJobStatus int JobStatus
  | UpdateJobStatusByPgid int JobStatus

fun run_ops :: "job_op list \<Rightarrow> jobs_state \<Rightarrow> int list \<times> jobs_state" where
  "run_ops [] s = ([], s)"
| "run_ops (AddJob ok pg cmd st # ops) s =
     (let (r, s') = add_job ok pg cmd st s; (rs, s'') = run_ops ops s' in (r # rs, s''))"
| "run_ops (RemoveJob jid # ops) s = run_ops ops (remove_job jid s)"
| "run_ops (CleanupJobs # ops) s = run_ops ops (cleanup_jobs s)"
| "run_ops (UpdateJobStatus jid st # ops) s = run_ops ops (update_job_status jid st s)"
| "run_ops (UpdateJobStatusByPgid pg st # ops) s = run_ops ops (update_job_status_by_pgid pg st s)"

text \<open>The job IDs returned by the calls of \<open>add_job\<close> that did not fail.\<close>

definition successful :: "int list \<Rightarrow> int list" where
  "successful rs = filter (\<lambda>r. r \<noteq> - 1) rs"


text \<open>A table whose 100 slots hold the jobs 1 to 100.\<close>

definition full_table :: jobs_state where
  "full_table =
     \<lparr>job_table = map (\<lambda>i. \<lparr>job_id = int i + 1, pgid = 4242, command = Some ''sleep 1000'',
                               status = JOB_RUNNING\<rparr>) [0 ..< 100],
      next_job_id = 101, num_jobs = 100\<rparr>"

section \<open>Pipelines that are waited for\<close>




section \<open>Properties of the lexer\<close>


text \<open>
  Claim C10. For every input line that is empty or consists only of whitespace
  characters (the line is the C string in the buffer \<open>input\<close>), \<open>tokenize\<close> returns 0 and
  sets the token array to NULL (\<open>Inr None\<close>); it reports no error and makes no empty
  token. The two buffers of \<open>tokenize\<close> are allocated before the line is looked at, so
  the statement is for a call whose two \<open>malloc\<close>s succeed.
\<close>

theorem tokenize_blank_line:
  assumes "mem 0" and "mem 1" and "\<forall>c\<in>set (cstring input). isspace c"
  shows "tokenize mem env input = Inr None \<and> tokenize_ret (tokenize mem env input) = 0"
proof -
  have "dropWhile isspace (cstring input) = []"
    using assms(3) by simp
  then have "tokenize mem env input = Inr None"
    using assms(1,2) by (simp add: tokenize_def)
  then show ?thesis
    by (simp add: tokenize_ret_def)
qed

text \<open>The line of a space, a tab and a space.\<close>

theorem tokenize_blank_line_witness:
  "tokenize (\<lambda>k. True) Map.empty [CHR 0x20, CHR 0x09, CHR 0x20] = Inr None
   \<and> tokenize_ret (tokenize (\<lambda>k. True) Map.empty [CHR 0x20, CHR 0x09, CHR 0x20]) = 0"
  by (rule tokenize_blank_line) (simp_all add: isspace_def cstring_def)

text \<open>
  Inside double quotes a run of \<open>n\<close> copies of a character that is neither a backslash,
  a dollar sign nor a double quote is copied to the token buffer, as long as it fits.
\<close>

lemma tokenize_loop_plain_dq:
  assumes "c \<noteq> CHR 0x5C" "c \<noteq> CHR ''$''" "c \<noteq> CHR 0x22"
    and "state L = STATE_DOUBLE_QUOTE" "length (toks L) < MAX_TOKENS - 1"
    and "length (token_buf L) + n \<le> MAX_INPUT_SIZE - 1"
  shows "tokenize_loop mem env L (replicate n c @ rest)
         = tokenize_loop mem env (L\<lparr>token_buf := token_buf L @ replicate n c\<rparr>) rest"
  using assms
proof (induction n arbitrary: L)
  case 0
  then show ?case by simp
next
  case (Suc n)
  let ?L' = "L\<lparr>token_buf := token_buf L @ [c]\<rparr>"
  have step: "lex_step mem env L c (replicate n c @ rest) = Inr (?L', replicate n c @ rest)"
    using Suc.prems by (simp add: lex_step_def put_char_def)
  have "tokenize_loop mem env L (replicate (Suc n) c @ rest)
        = tokenize_loop mem env ?L' (replicate n c @ rest)"
    using Suc.prems step by simp
  also have "\<dots> = tokenize_loop mem env (?L'\<lparr>token_buf := token_buf ?L' @ replicate n c\<rparr>) rest"
    using Suc.prems by (intro Suc.IH) simp_all
  finally show ?case
    by (simp add: replicate_app_Cons_same)
qed

text \<open>
  Claim C5, as amended. In \<open>STATE_ESCAPE\<close> the character \<open>c\<close> after the backslash makes
  the lexer append exactly one character to the token buffer, \<open>process_escape c\<close>
  (newline for n, tab for t, carriage return for r, backslash, double quote and single
  quote for themselves, NUL for 0, and \<open>c\<close> itself for any other character), provided
  that the buffer holds fewer than \<open>MAX_INPUT_SIZE - 1\<close> characters; a full buffer is
  left as it is. In both cases the lexer goes back to \<open>STATE_DOUBLE_QUOTE\<close> and moves
  past \<open>c\<close>; this is the iteration the loop of \<open>tokenize\<close> makes in \<open>STATE_ESCAPE\<close>.
\<close>

theorem escape_step:
  assumes "state L = STATE_ESCAPE"
  shows "lex_step mem env L c cs =
           Inr (L\<lparr>token_buf := (if length (token_buf L) < MAX_INPUT_SIZE - 1
                                  then token_buf L @ [process_escape c] else token_buf L),
                  state := STATE_DOUBLE_QUOTE\<rparr>, cs)
         \<and> process_escape (CHR ''n'') = CHR 0x0A
         \<and> process_escape (CHR ''t'') = CHR 0x09
         \<and> process_escape (CHR ''r'') = CHR 0x0D
         \<and> process_escape (CHR 0x5C) = CHR 0x5C
         \<and> process_escape (CHR 0x22) = CHR 0x22
         \<and> process_escape (CHR 0x27) = CHR 0x27
         \<and> process_escape (CHR ''0'') = CHR 0x00
         \<and> (c \<notin> {CHR ''n'', CHR ''t'', CHR ''r'', CHR 0x5C, CHR 0x22, CHR 0x27, CHR ''0''}
              \<longrightarrow> process_escape c = c)
         \<and> (length (toks L) < MAX_TOKENS - 1 \<longrightarrow>
              tokenize_loop mem env L (c # cs)
              = tokenize_loop mem env
                  (L\<lparr>token_buf := (if length (token_buf L) < MAX_INPUT_SIZE - 1
                                     then token_buf L @ [process_escape c] else token_buf L),
                     state := STATE_DOUBLE_QUOTE\<rparr>) cs)"
  using assms by (simp add: lex_step_def put_char_def process_escape_def)

text \<open>The escape \<open>\t\<close> after the two characters \<open>ab\<close>, and the unknown escape \<open>\x\<close>.\<close>

theorem escape_step_witness:
  "lex_step (\<lambda>k. True) Map.empty
      \<lparr>state = STATE_ESCAPE, toks = [], token_buf = ''ab'', allocs = 2\<rparr> (CHR ''t'') ''c''
     = Inr (\<lparr>state = STATE_DOUBLE_QUOTE, toks = [], token_buf = [CHR ''a'', CHR ''b'', CHR 0x09],
             allocs = 2\<rparr>, ''c'')
   \<and> process_escape (CHR ''x'') = CHR ''x''"
  using escape_step [of "\<lparr>state = STATE_ESCAPE, toks = [], token_buf = ''ab'', allocs = 2\<rparr>"
                        "\<lambda>k. True" Map.empty "CHR ''t''" "''c''"]
        escape_step [of "\<lparr>state = STATE_ESCAPE, toks = [], token_buf = ''ab'', allocs = 2\<rparr>"
                        "\<lambda>k. True" Map.empty "CHR ''x''" "''c''"]
  by (simp add: MAX_INPUT_SIZE_def)

text \<open>
  Claim C5 as it was stated fails on a full buffer: in the line made of a double quote,
  4095 letters \<open>a\<close>, the escape \<open>\n\<close> and a double quote, the escape appends nothing, and
  the token is the 4095 letters.
\<close>

theorem escape_full_buffer:
  "tokenize (\<lambda>k. True) Map.empty
     (CHR 0x22 # replicate 4095 (CHR ''a'') @ [CHR 0x5C, CHR ''n'', CHR 0x22])
   = Inr (Some [replicate 4095 (CHR ''a'')])"
proof -
  let ?L0 = "\<lparr>state = STATE_NORMAL, toks = [], token_buf = [], allocs = 2\<rparr>"
  let ?L1 = "\<lparr>state = STATE_DOUBLE_QUOTE, toks = [], token_buf = [], allocs = 2\<rparr>"
  let ?L2 = "\<lparr>state = STATE_DOUBLE_QUOTE, toks = [], token_buf = replicate 4095 (CHR ''a''),
              allocs = 2\<rparr>"
  let ?tail = "[CHR 0x5C, CHR ''n'', CHR 0x22]"
  let ?line = "CHR 0x22 # replicate 4095 (CHR ''a'') @ ?tail"
  have "tokenize_loop (\<lambda>k. True) Map.empty ?L1 (replicate 4095 (CHR ''a'') @ ?tail)
        = tokenize_loop (\<lambda>k. True) Map.empty
            (?L1\<lparr>token_buf := token_buf ?L1 @ replicate 4095 (CHR ''a'')\<rparr>) ?tail"
    by (rule tokenize_loop_plain_dq) (simp_all add: MAX_TOKENS_def MAX_INPUT_SIZE_def)
  then have a: "tokenize_loop (\<lambda>k. True) Map.empty ?L1 (replicate 4095 (CHR ''a'') @ ?tail)
        = tokenize_loop (\<lambda>k. True) Map.empty ?L2 ?tail"
    by simp
  have b: "tokenize_loop (\<lambda>k. True) Map.empty ?L2 ?tail
        = Inr \<lparr>state = STATE_NORMAL, toks = [], token_buf = replicate 4095 (CHR ''a''),
                allocs = 2\<rparr>"
    by (simp add: lex_step_def put_char_def MAX_TOKENS_def MAX_INPUT_SIZE_def)
  have c: "tokenize_loop (\<lambda>k. True) Map.empty ?L0 ?line
        = tokenize_loop (\<lambda>k. True) Map.empty ?L1 (replicate 4095 (CHR ''a'') @ ?tail)"
    by (simp add: lex_step_def isspace_def MAX_TOKENS_def)
  have d: "cstring ?line = ?line"
    unfolding cstring_def by (rule takeWhile_eq_all_conv [THEN iffD2]) auto
  have e: "cstring (replicate 4095 (CHR ''a'')) = replicate 4095 (CHR ''a'')"
    unfolding cstring_def by (rule takeWhile_eq_all_conv [THEN iffD2]) auto
  show ?thesis
    unfolding tokenize_def d
    by (simp add: isspace_def a b c e del: tokenize_loop.simps)
qed

text \<open>
  A step of the lexer asks the allocator about the request \<open>allocs L\<close> only, makes at
  most one request, and consumes at least one character; so the loop over \<open>p\<close> asks
  about requests below \<open>allocs L + length p\<close> only.
\<close>

lemma lex_step_mem_cong:
  assumes "mem1 (allocs L) = mem2 (allocs L)"
  shows "lex_step mem1 env L c cs = lex_step mem2 env L c cs"
  using assms
  by (cases "state L")
     (simp_all add: lex_step_def expand_step_def expand_variable_def
               split: prod.splits option.splits)

lemma lex_step_allocs:
  assumes "lex_step mem env L c cs = Inr (L', p')"
  shows "allocs L \<le> allocs L' \<and> allocs L' \<le> Suc (allocs L)"
  using assms
  by (cases "state L")
     (auto simp: lex_step_def expand_step_def expand_variable_def
           split: if_splits prod.splits option.splits)

lemma tokenize_loop_mem_cong:
  assumes "\<forall>k. allocs L \<le> k \<and> k < allocs L + length p \<longrightarrow> mem1 k = mem2 k"
  shows "tokenize_loop mem1 env L p = tokenize_loop mem2 env L p"
  using assms
proof (induction mem1 env L p rule: tokenize_loop.induct)
  case (1 mem env L)
  then show ?case by simp
next
  case (2 mem env L c cs)
  show ?case
  proof (cases "length (toks L) < MAX_TOKENS - 1")
    case False
    then show ?thesis by simp
  next
    case True
    have same: "lex_step mem env L c cs = lex_step mem2 env L c cs"
      using "2.prems" by (intro lex_step_mem_cong) simp
    show ?thesis
    proof (cases "lex_step mem env L c cs")
      case (Inl e)
      then show ?thesis using True same by simp
    next
      case (Inr r)
      obtain L' p' where r: "r = (L', p')" by (cases r)
      have len: "length p' \<le> length cs"
        using Inr r by (auto dest: lex_step_length)
      have al: "allocs L' \<le> Suc (allocs L)" and al': "allocs L \<le> allocs L'"
        using Inr r lex_step_allocs [of mem env L c cs L' p'] by simp_all
      have step2: "lex_step mem2 env L c cs = Inr (L', p')"
        using same Inr r by simp
      have l1: "tokenize_loop mem env L (c # cs) = tokenize_loop mem env L' p'"
        using True Inr r by simp
      have l2: "tokenize_loop mem2 env L (c # cs) = tokenize_loop mem2 env L' p'"
        using True step2 by simp
      have "tokenize_loop mem env L' p' = tokenize_loop mem2 env L' p'"
        using True Inr r "2.prems" len al al'
        by (intro "2.IH") auto
      then show ?thesis
        using l1 l2 by simp
    qed
  qed
qed

lemma tokenize_loop_allocs:
  assumes "tokenize_loop mem env L p = Inr L'"
  shows "allocs L' \<le> allocs L + length p"
  using assms
proof (induction mem env L p rule: tokenize_loop.induct)
  case (1 mem env L)
  then show ?case by simp
next
  case (2 mem env L c cs)
  show ?case
  proof (cases "length (toks L) < MAX_TOKENS - 1")
    case False
    then show ?thesis using "2.prems" by simp
  next
    case True
    show ?thesis
    proof (cases "lex_step mem env L c cs")
      case (Inl e)
      then show ?thesis using True "2.prems" by simp
    next
      case (Inr r)
      obtain L1 p1 where r: "r = (L1, p1)" by (cases r)
      have len: "length p1 \<le> length cs"
        using Inr r by (auto dest: lex_step_length)
      have al: "allocs L1 \<le> Suc (allocs L)"
        using Inr r lex_step_allocs [of mem env L c cs L1 p1] by simp
      have "tokenize_loop mem env L1 p1 = Inr L'"
        using True Inr r "2.prems" by simp
      then have "allocs L' \<le> allocs L1 + length p1"
        using True Inr r by (intro "2.IH") auto
      then show ?thesis
        using len al by simp
    qed
  qed
qed

lemma cstring_length: "length (cstring s) \<le> length s"
  by (simp add: cstring_def length_takeWhile_le)

text \<open>
  The result of \<open>tokenize\<close> depends on the allocator only through the requests
  0 to \<open>length input + 2\<close>.
\<close>

lemma tokenize_mem_cong:
  assumes "\<forall>k\<le>length input + 2. mem1 k = mem2 k"
  shows "tokenize mem1 env input = tokenize mem2 env input"
proof -
  let ?p = "dropWhile isspace (cstring input)"
  let ?L0 = "\<lparr>state = STATE_NORMAL, toks = [], token_buf = [], allocs = 2\<rparr>"
  have lp: "length ?p \<le> length input"
    using cstring_length [of input] length_dropWhile_le [of isspace "cstring input"] by simp
  have loop: "tokenize_loop mem1 env ?L0 ?p = tokenize_loop mem2 env ?L0 ?p"
    using assms lp by (intro tokenize_loop_mem_cong) simp
  have last: "mem1 (allocs L) = mem2 (allocs L)" if "tokenize_loop mem2 env ?L0 ?p = Inr L" for L
    using tokenize_loop_allocs [OF that] assms lp by simp
  have m0: "mem1 0 = mem2 0" and m1: "mem1 1 = mem2 1"
    using assms by simp_all
  show ?thesis
    unfolding tokenize_def Let_def loop m0 m1
    by (auto split: sum.splits dest: last)
qed

text \<open>
  Claim C8. \<open>tokenize\<close> is a function of the input line and the environment: it keeps
  nothing between calls and writes neither to the line nor to the environment, so the
  only thing that can differ between two runs is whether allocation succeeds. Two runs
  on the same line and environment in which the allocations succeed (the lexer makes
  at most \<open>length input + 3\<close> requests) give the same result, token for token.
\<close>

theorem tokenize_deterministic:
  assumes "\<forall>k\<le>length input + 2. mem1 k" and "\<forall>k\<le>length input + 2. mem2 k"
  shows "tokenize mem1 env input = tokenize mem2 env input"
  using assms by (intro tokenize_mem_cong) simp

text \<open>
  A line of 13 characters, with an allocator that never fails and one that fails from
  request 16 on.
\<close>

theorem tokenize_deterministic_witness:
  "tokenize (\<lambda>k. True) [''HOME'' \<mapsto> ''/root''] ''echo $HOME/x''
   = tokenize (\<lambda>k. k \<le> 15) [''HOME'' \<mapsto> ''/root''] ''echo $HOME/x''"
  by (rule tokenize_deterministic) simp_all

section \<open>Quoting and the operators\<close>








section \<open>Properties of the parser\<close>

text \<open>
  Claim C3 (the code does not do what the claim says). A segment whose reduction leaves
  \<open>argv\<close> empty is accepted: \<open>parse_command\<close> rejects an empty token array only, and never
  looks at \<open>argc\<close> after its loop. The tokens of the line \<open>< file\<close> give a \<open>Command\<close> with an
  empty \<open>argv\<close>, and so does the second segment of \<open>ls | > out\<close>.
\<close>

theorem redirection_only_segment_accepted:
  "parse_command (\<lambda>k. True) 0 [''<'', ''file'']
     = Inr (\<lparr>argv = [], input_file = Some ''file'', output_file = None, append_mode = False,
             background = False\<rparr>, 2)
   \<and> parse_pipeline (\<lambda>k. True) [''ls'', ''|'', ''>'', ''out'']
     = Inr \<lparr>commands =
              [\<lparr>argv = [''ls''], input_file = None, output_file = None, append_mode = False,
                background = False\<rparr>,
               \<lparr>argv = [], input_file = None, output_file = Some ''out'', append_mode = False,
                background = False\<rparr>],
            num_commands = 2, pipeline_background = False\<rparr>"
  by (simp add: parse_pipeline_def parse_command_def MAX_ARGS_def empty_command_def)

text \<open>
  A pipeline made by \<open>parse_pipeline\<close> holds \<open>num_commands\<close> commands, and at least one
  (so \<open>execute_pipeline\<close> reads \<open>commands[0]\<close> and the pids of the children within bounds).
\<close>

lemma split_loop_length:
  assumes "split_loop mem ts seg cmds k = Inr (cmds', seg', k')"
  shows "length cmds' = length cmds + length (filter (\<lambda>t. t = ''|'') ts)"
  using assms
proof (induction ts arbitrary: seg cmds k)
  case Nil
  then show ?case by simp
next
  case (Cons t ts)
  show ?case
  proof (cases "t = ''|''")
    case True
    then obtain c k1 where "parse_command mem (Suc k) seg = Inr (c, k1)"
        and "split_loop mem ts [] (cmds @ [c]) k1 = Inr (cmds', seg', k')"
      using Cons.prems by (auto split: if_splits sum.splits)
    then show ?thesis
      using True Cons.IH [of "[]" "cmds @ [c]" k1] by simp
  next
    case False
    then show ?thesis
      using Cons.prems Cons.IH [of "seg @ [t]" cmds k] by simp
  qed
qed

lemma parse_pipeline_num_commands:
  assumes "parse_pipeline mem tokens = Inr pl"
  shows "num_commands pl = length (commands pl) \<and> 1 \<le> num_commands pl"
  using assms
  by (auto simp: parse_pipeline_def Let_def split: if_splits sum.splits prod.splits
           dest!: split_loop_length)

text \<open>Ordinary words at the start of a segment go to \<open>argv\<close>, while there is room.\<close>

lemma parse_loop_words:
  assumes "\<forall>t\<in>set pre. t \<notin> {''<'', ''>'', ''>>'', ''&''}"
    and "length (argv cmd) + length pre \<le> MAX_ARGS - 1" and "\<forall>i. mem i"
  shows "parse_loop mem (pre @ rest) cmd k
         = parse_loop mem rest (cmd\<lparr>argv := argv cmd @ pre\<rparr>) (k + length pre)"
  using assms
proof (induction pre arbitrary: cmd k)
  case Nil
  then show ?case by simp
next
  case (Cons t pre)
  let ?cmd' = "cmd\<lparr>argv := argv cmd @ [t]\<rparr>"
  have "parse_loop mem ((t # pre) @ rest) cmd k = parse_loop mem (pre @ rest) ?cmd' (Suc k)"
    using Cons.prems by simp
  also have "\<dots> = parse_loop mem rest (?cmd'\<lparr>argv := argv ?cmd' @ pre\<rparr>) (Suc k + length pre)"
    using Cons.prems by (intro Cons.IH) simp_all
  finally show ?case by simp
qed

lemma parse_loop_amp:
  assumes "length (argv cmd) < MAX_ARGS - 1" and "ts \<noteq> []"
  shows "parse_loop mem (''&'' # ts) cmd k = Inl AmpNotAtEnd"
  using assms by simp

lemma parse_command_amp:
  assumes "\<forall>t\<in>set pre. t \<notin> {''<'', ''>'', ''>>'', ''&''}"
    and "length pre < MAX_ARGS - 1" and "ts \<noteq> []" and "\<forall>i. mem i"
  shows "parse_command mem k (pre @ ''&'' # ts) = Inl AmpNotAtEnd"
proof -
  have "parse_loop mem (pre @ ''&'' # ts) empty_command (Suc k)
        = parse_loop mem (''&'' # ts) (empty_command\<lparr>argv := argv empty_command @ pre\<rparr>)
            (Suc k + length pre)"
    using assms by (intro parse_loop_words) (simp_all add: empty_command_def)
  also have "\<dots> = Inl AmpNotAtEnd"
    using assms by (intro parse_loop_amp) (simp_all add: empty_command_def)
  finally show ?thesis
    using assms by (simp add: parse_command_def)
qed

text \<open>
  The same for a whole line, through the dispatch of \<open>main\<close>: tokens before the first
  \<open>|\<close> of the line make the first segment, whichever of the two parsers is called.
\<close>

lemma split_loop_no_pipe:
  assumes "''|'' \<notin> set seg1"
  shows "split_loop mem (seg1 @ rest) seg cmds k = split_loop mem rest (seg @ seg1) cmds k"
  using assms by (induction seg1 arbitrary: seg) auto

lemma parse_line_amp:
  assumes words: "\<forall>t\<in>set pre. t \<notin> {''<'', ''>'', ''>>'', ''&'', ''|''}"
    and len: "length pre < MAX_ARGS - 1" and ts: "ts \<noteq> []" "hd ts \<noteq> ''|''"
    and mem: "\<forall>i. mem i"
  shows "parse_line mem (pre @ ''&'' # ts) = Inl AmpNotAtEnd"
proof (cases "has_pipe (pre @ ''&'' # ts)")
  case False
  have "parse_command mem 0 (pre @ ''&'' # ts) = Inl AmpNotAtEnd"
    using words len ts(1) mem by (intro parse_command_amp) auto
  then show ?thesis
    using False by (simp add: parse_line_def)
next
  case True
  then have "''|'' \<in> set ts"
    using words by (auto simp: has_pipe_def)
  then obtain ts1 rest where split: "ts = ts1 @ ''|'' # rest" "''|'' \<notin> set ts1"
    by (meson split_list_first)
  have ts1: "ts1 \<noteq> []"
    using split ts by (cases ts1) auto
  let ?seg = "pre @ ''&'' # ts1"
  have nopipe: "''|'' \<notin> set ?seg"
    using words split(2) by auto
  have seg: "parse_command mem (Suc (Suc 0)) ?seg = Inl AmpNotAtEnd"
    using words len ts1 mem by (intro parse_command_amp) auto
  have "split_loop mem (?seg @ ''|'' # rest) [] [] 1
        = split_loop mem (''|'' # rest) ([] @ ?seg) [] 1"
    using nopipe by (rule split_loop_no_pipe)
  also have "\<dots> = Inl AmpNotAtEnd"
    using seg mem by simp
  finally have "split_loop mem (pre @ ''&'' # ts) [] [] 1 = Inl AmpNotAtEnd"
    using split(1) by simp
  then have "parse_pipeline mem (pre @ ''&'' # ts) = Inl AmpNotAtEnd"
    using mem by (simp add: parse_pipeline_def Let_def)
  then show ?thesis
    using True by (simp add: parse_line_def)
qed

lemma parse_pipeline_background:
  assumes "parse_pipeline mem tokens = Inr pl"
  shows "tokens \<noteq> [] \<and> (pipeline_background pl \<longleftrightarrow> last tokens = ''&'')"
proof -
  have "tokens \<noteq> []"
    using assms by (auto simp: parse_pipeline_def split: if_splits)
  moreover have "pipeline_background pl \<longleftrightarrow> (tokens \<noteq> [] \<and> last tokens = ''&'')"
    using assms
    by (auto simp: parse_pipeline_def Let_def split: if_splits sum.splits prod.splits)
  ultimately show ?thesis by simp
qed

text \<open>
  Claim C4, as amended. \<open>parse_command\<close> looks at one segment. When its loop comes to a
  token \<open>&\<close> in operator position (fewer than \<open>MAX_ARGS - 1\<close> arguments collected so far,
  and the token not taken as the operand of a redirection before it) and another token
  of the segment follows, it fails with the diagnostic "& must be at end of command".
  So a segment of fewer than 63 ordinary words, then \<open>&\<close>, then at least one more token
  is rejected with that diagnostic (the allocations succeeding); and so is a whole line
  that starts with such a segment, whether or not pipes follow. And when
  \<open>parse_pipeline\<close> succeeds, the background flag of the pipeline is set exactly when the
  last token of the whole sequence is \<open>&\<close>.
\<close>

theorem ampersand_inside_segment:
  shows "(length (argv cmd) < MAX_ARGS - 1 \<and> ts \<noteq> [] \<longrightarrow>
            parse_loop mem (''&'' # ts) cmd k = Inl AmpNotAtEnd)
         \<and> ((\<forall>t\<in>set pre. t \<notin> {''<'', ''>'', ''>>'', ''&''}) \<and> length pre < MAX_ARGS - 1
              \<and> ts \<noteq> [] \<and> (\<forall>i. mem i) \<longrightarrow>
              parse_command mem k (pre @ ''&'' # ts) = Inl AmpNotAtEnd)
         \<and> ((\<forall>t\<in>set ws. t \<notin> {''<'', ''>'', ''>>'', ''&'', ''|''}) \<and> length ws < MAX_ARGS - 1
              \<and> us \<noteq> [] \<and> hd us \<noteq> ''|'' \<and> (\<forall>i. mem i) \<longrightarrow>
              parse_line mem (ws @ ''&'' # us) = Inl AmpNotAtEnd)
         \<and> diagnostic AmpNotAtEnd = Some ''myshell: syntax error: & must be at end of command''
         \<and> (parse_pipeline mem tokens = Inr pl \<longrightarrow>
              tokens \<noteq> [] \<and> (pipeline_background pl \<longleftrightarrow> last tokens = ''&''))"
  using parse_loop_amp [of cmd ts mem k] parse_command_amp [of pre ts mem k]
        parse_line_amp [of ws us mem] parse_pipeline_background [of mem tokens pl]
  by (simp add: diagnostic_def)

text \<open>
  The segment \<open>sleep 5 & echo\<close>, the line \<open>sleep 5 & echo hi | cat\<close>, and the pipeline
  \<open>a | b &\<close> (background).
\<close>

theorem ampersand_inside_segment_witness:
  "parse_loop (\<lambda>k. True) [''&'', ''echo''] (empty_command\<lparr>argv := [''sleep'', ''5'']\<rparr>) 3
     = Inl AmpNotAtEnd
   \<and> parse_command (\<lambda>k. True) 3 ([''sleep'', ''5''] @ [''&'', ''echo'']) = Inl AmpNotAtEnd
   \<and> parse_line (\<lambda>k. True) ([''sleep'', ''5''] @ [''&'', ''echo'', ''hi'', ''|'', ''cat''])
     = Inl AmpNotAtEnd
   \<and> pipeline_background
        \<lparr>commands = [empty_command\<lparr>argv := [''a'']\<rparr>, empty_command\<lparr>argv := [''b'']\<rparr>],
         num_commands = 2, pipeline_background = True\<rparr>
   \<and> parse_pipeline (\<lambda>k. True) [''a'', ''|'', ''b'', ''&'']
     = Inr \<lparr>commands = [empty_command\<lparr>argv := [''a'']\<rparr>, empty_command\<lparr>argv := [''b'']\<rparr>],
            num_commands = 2, pipeline_background = True\<rparr>"
  using ampersand_inside_segment
          [where cmd = "empty_command\<lparr>argv := [''sleep'', ''5'']\<rparr>" and ts = "[''echo'']"
             and mem = "\<lambda>k. True" and k = 3 and pre = "[''sleep'', ''5'']"
             and ws = "[''sleep'', ''5'']" and us = "[''echo'', ''hi'', ''|'', ''cat'']"
             and tokens = "[''a'', ''|'', ''b'', ''&'']"
             and pl = "\<lparr>commands = [empty_command\<lparr>argv := [''a'']\<rparr>,
                                     empty_command\<lparr>argv := [''b'']\<rparr>],
                        num_commands = 2, pipeline_background = True\<rparr>"]
  by (simp add: parse_pipeline_def parse_command_def MAX_ARGS_def empty_command_def)

text \<open>
  Claim C4 as it was stated fails: in \<open>cat < & x\<close> the token \<open>&\<close> is not the last one, and
  the parser takes it as the operand of \<open><\<close> and succeeds.
\<close>

theorem ampersand_as_operand:
  "parse_line (\<lambda>k. True) [''cat'', ''<'', ''&'', ''x'']
     = Inr (Inr \<lparr>argv = [''cat'', ''x''], input_file = Some ''&'', output_file = None,
                 append_mode = False, background = False\<rparr>)"
  by (simp add: parse_line_def has_pipe_def parse_command_def MAX_ARGS_def empty_command_def)

text \<open>
  Two more pipelines that are accepted although a \<open>&\<close> stands before the end of the line.
  In \<open>a & | b\<close> the \<open>&\<close> is the last token of its segment; in \<open>a | b & &\<close> the last \<open>&\<close> is
  taken off before the last segment is reduced, and the one before it then ends that
  segment. In both only the \<open>background\<close> flag of a \<open>Command\<close> is set, which
  \<open>execute_pipeline\<close> does not read.
\<close>

lemma ampersand_ends_segment:
  "parse_line (\<lambda>k. True) [''a'', ''&'', ''|'', ''b'']
     = Inr (Inl \<lparr>commands = [empty_command\<lparr>argv := [''a''], background := True\<rparr>,
                             empty_command\<lparr>argv := [''b'']\<rparr>],
                 num_commands = 2, pipeline_background = False\<rparr>)
   \<and> parse_line (\<lambda>k. True) [''a'', ''|'', ''b'', ''&'', ''&'']
     = Inr (Inl \<lparr>commands = [empty_command\<lparr>argv := [''a'']\<rparr>,
                             empty_command\<lparr>argv := [''b''], background := True\<rparr>],
                 num_commands = 2, pipeline_background = True\<rparr>)"
  by (simp add: parse_line_def has_pipe_def parse_pipeline_def parse_command_def MAX_ARGS_def
      empty_command_def)

section \<open>Properties of the job table\<close>

lemma c_int_id: "- 2147483648 \<le> x \<Longrightarrow> x < 2147483648 \<Longrightarrow> c_int x = x"
  unfolding c_int_def by (simp add: signed_take_bit_int_eq_self_iff)

lemma first_index_Some:
  "first_index P xs = Some i \<Longrightarrow> i < length xs \<and> P (xs ! i) \<and> (\<forall>j<i. \<not> P (xs ! j))"
proof (induction xs arbitrary: i)
  case Nil
  then show ?case by simp
next
  case (Cons x xs)
  show ?case
  proof (cases "P x")
    case True
    then show ?thesis using Cons.prems by simp
  next
    case False
    then obtain i' where i': "first_index P xs = Some i'" "i = Suc i'"
      using Cons.prems by auto
    have "i' < length xs \<and> P (xs ! i') \<and> (\<forall>j<i'. \<not> P (xs ! j))"
      using i'(1) by (rule Cons.IH)
    then show ?thesis
      using False i'(2) by (auto simp: nth_Cons split: nat.splits)
  qed
qed

lemma first_index_None: "first_index P xs = None \<longleftrightarrow> (\<forall>x\<in>set xs. \<not> P x)"
  by (induction xs) auto


text \<open>
  Only \<open>add_job\<close> writes \<open>next_job_id\<close>: while the counter is below \<open>INT_MAX\<close> it adds one
  when it assigns an ID and returns either -1 or the ID assigned.
\<close>

lemma add_job_next:
  assumes "add_job ok pg cmd st s = (r, s')" and "0 < next_job_id s" and "next_job_id s < INT_MAX"
  shows "(r = - 1 \<or> r = next_job_id s) \<and> next_job_id s \<le> next_job_id s'
         \<and> next_job_id s' \<le> next_job_id s + 1 \<and> (r \<noteq> - 1 \<longrightarrow> next_job_id s' = next_job_id s + 1)"
proof -
  have w: "c_int (next_job_id s + 1) = next_job_id s + 1"
    using assms(2,3) by (intro c_int_id) (simp_all add: INT_MAX_def)
  show ?thesis
    using assms(1) w
    by (auto simp: add_job_def Let_def split: if_splits option.splits)
qed

lemma remove_job_next [simp]: "next_job_id (remove_job jid s) = next_job_id s"
  by (simp add: remove_job_def split: option.splits)

lemma cleanup_jobs_next [simp]: "next_job_id (cleanup_jobs s) = next_job_id s"
  by (simp add: cleanup_jobs_def split: prod.splits)

lemma update_job_status_next [simp]: "next_job_id (update_job_status jid st s) = next_job_id s"
  by (simp add: update_job_status_def split: option.splits)

lemma update_job_status_by_pgid_next [simp]:
  "next_job_id (update_job_status_by_pgid pg st s) = next_job_id s"
  by (simp add: update_job_status_by_pgid_def split: option.splits)

lemma run_ops_ids:
  assumes "run_ops ops s = (rs, s')" and "0 < next_job_id s"
    and "next_job_id s + int (length ops) \<le> INT_MAX"
  shows "next_job_id s \<le> next_job_id s' \<and> next_job_id s' \<le> next_job_id s + int (length ops)
         \<and> (\<forall>r\<in>set (successful rs). next_job_id s \<le> r \<and> r < next_job_id s')
         \<and> sorted_wrt (<) (successful rs)"
  using assms
proof (induction ops s arbitrary: rs s' rule: run_ops.induct)
  case (1 s)
  then show ?case by (simp add: successful_def)
next
  case (2 ok pg cmd st ops s)
  obtain r s1 where a: "add_job ok pg cmd st s = (r, s1)" by (cases "add_job ok pg cmd st s")
  obtain rs1 s2 where b: "run_ops ops s1 = (rs1, s2)" by (cases "run_ops ops s1")
  have rs: "rs = r # rs1" and s': "s' = s2"
    using "2.prems"(1) a b by simp_all
  have lt: "next_job_id s < INT_MAX"
    using "2.prems"(3) by simp
  note n = add_job_next [OF a "2.prems"(2) lt]
  have pos1: "0 < next_job_id s1" using n "2.prems"(2) by simp
  have bound1: "next_job_id s1 + int (length ops) \<le> INT_MAX"
    using n "2.prems"(3) by simp
  have ih: "next_job_id s1 \<le> next_job_id s2 \<and> next_job_id s2 \<le> next_job_id s1 + int (length ops)
         \<and> (\<forall>r\<in>set (successful rs1). next_job_id s1 \<le> r \<and> r < next_job_id s2)
         \<and> sorted_wrt (<) (successful rs1)"
    using a b pos1 bound1 by (intro "2.IH"[of "(r, s1)" r s1 rs1 s2]) simp_all
  show ?case
  proof (cases "r = - 1")
    case True
    then show ?thesis
      using ih n rs s' by (auto simp: successful_def)
  next
    case False
    then have r: "r = next_job_id s" and n1: "next_job_id s1 = next_job_id s + 1"
      using n by auto
    show ?thesis
      using ih False r n1 rs s' by (auto simp: successful_def)
  qed
next
  case (3 jid ops s)
  then show ?case using "3.IH"[of rs s'] by simp
next
  case (4 ops s)
  then show ?case using "4.IH"[of rs s'] by simp
next
  case (5 jid st ops s)
  then show ?case using "5.IH"[of rs s'] by simp
next
  case (6 pg st ops s)
  then show ?case using "6.IH"[of rs s'] by simp
qed

text \<open>
  Claim C6. In every session of calls of \<open>add_job\<close>, \<open>remove_job\<close>, \<open>cleanup_jobs\<close> (and of
  the two functions that set a status) after \<open>init_jobs\<close>, the job IDs that the successful
  calls of \<open>add_job\<close> return are strictly increasing and positive, so no ID is returned
  twice, whatever was removed or purged in between. The counter is a C int: the
  statement is for sessions of fewer than \<open>INT_MAX\<close> calls, in which it cannot overflow.
\<close>

theorem job_ids_increase:
  assumes "int (length ops) < INT_MAX"
  shows "sorted_wrt (<) (successful (fst (run_ops ops init_jobs)))
         \<and> (\<forall>r\<in>set (successful (fst (run_ops ops init_jobs))). 0 < r)
         \<and> distinct (successful (fst (run_ops ops init_jobs)))"
proof -
  obtain rs s' where r: "run_ops ops init_jobs = (rs, s')" by (cases "run_ops ops init_jobs")
  have "next_job_id init_jobs \<le> next_job_id s' \<and> next_job_id s' \<le> next_job_id init_jobs + int (length ops)
         \<and> (\<forall>r\<in>set (successful rs). next_job_id init_jobs \<le> r \<and> r < next_job_id s')
         \<and> sorted_wrt (<) (successful rs)"
    using r assms by (intro run_ops_ids) (simp_all add: init_jobs_def)
  then have "sorted_wrt (<) (successful rs)" and "\<forall>r\<in>set (successful rs). 0 < r"
    by (auto simp: init_jobs_def)
  moreover from this(1) have "distinct (successful rs)"
    by (simp add: strict_sorted_iff)
  ultimately show ?thesis using r by simp
qed

text \<open>
  A session in which the second job is purged, the first removed, and one \<open>add_job\<close> fails
  in \<open>strdup\<close> after taking the ID 3: the IDs returned are 1, 2 and 4.
\<close>

theorem job_ids_increase_witness:
  "sorted_wrt (<) (successful (fst (run_ops
      [AddJob True 100 ''sleep 10'' JOB_RUNNING, AddJob True 101 ''ls'' JOB_DONE, CleanupJobs,
       RemoveJob 1, AddJob False 102 ''cat'' JOB_RUNNING, AddJob True 103 ''cat'' JOB_RUNNING]
      init_jobs)))
   \<and> successful (fst (run_ops
      [AddJob True 100 ''sleep 10'' JOB_RUNNING, AddJob True 101 ''ls'' JOB_DONE, CleanupJobs,
       RemoveJob 1, AddJob False 102 ''cat'' JOB_RUNNING, AddJob True 103 ''cat'' JOB_RUNNING]
      init_jobs)) = [1, 2, 4]"
proof -
  have e: "successful (fst (run_ops
      [AddJob True 100 ''sleep 10'' JOB_RUNNING, AddJob True 101 ''ls'' JOB_DONE, CleanupJobs,
       RemoveJob 1, AddJob False 102 ''cat'' JOB_RUNNING, AddJob True 103 ''cat'' JOB_RUNNING]
      init_jobs)) = [1, 2, 4]"
    by code_simp
  show ?thesis
    using job_ids_increase
            [of "[AddJob True 100 ''sleep 10'' JOB_RUNNING, AddJob True 101 ''ls'' JOB_DONE,
                  CleanupJobs, RemoveJob 1, AddJob False 102 ''cat'' JOB_RUNNING,
                  AddJob True 103 ''cat'' JOB_RUNNING]"] e
    by (simp add: INT_MAX_def)
qed

lemma count_le_length: "count_jobs s \<le> length (job_table s)"
  by (simp add: count_jobs_def)

lemma free_slot_exists:
  assumes "count_jobs s < length (job_table s)"
  shows "\<exists>slot. first_index (\<lambda>j. job_id j = 0) (job_table s) = Some slot"
proof (cases "first_index (\<lambda>j. job_id j = 0) (job_table s)")
  case None
  then have "\<forall>j\<in>set (job_table s). job_id j \<noteq> 0"
    by (simp add: first_index_None)
  then have "filter (\<lambda>j. job_id j \<noteq> 0) (job_table s) = job_table s"
    by (simp add: filter_id_conv)
  then show ?thesis using assms by (simp add: count_jobs_def)
next
  case (Some slot)
  then show ?thesis by blast
qed

lemma full_no_slot:
  assumes "count_jobs s = length (job_table s)"
  shows "first_index (\<lambda>j. job_id j = 0) (job_table s) = None"
proof -
  have "\<forall>j\<in>set (job_table s). job_id j \<noteq> 0"
  proof
    fix j assume "j \<in> set (job_table s)"
    show "job_id j \<noteq> 0"
    proof
      assume "job_id j = 0"
      then have "length (filter (\<lambda>j. job_id j \<noteq> 0) (job_table s)) < length (job_table s)"
        using \<open>j \<in> set (job_table s)\<close> by (intro length_filter_less [of j]) simp_all
      then show False using assms by (simp add: count_jobs_def)
    qed
  qed
  then show ?thesis by (simp add: first_index_None)
qed

lemma add_job_full:
  assumes "count_jobs s = length (job_table s)"
  shows "add_job ok pg cmd st s = (- 1, s)"
  using full_no_slot [OF assms] by (simp add: add_job_def)

lemma add_job_stores:
  assumes "jobs_inv s" and "first_index (\<lambda>j. job_id j = 0) (job_table s) = Some slot"
  shows "add_job True pg cmd st s =
           (next_job_id s,
            s\<lparr>job_table := (job_table s)[slot := \<lparr>job_id = next_job_id s, pgid = pg,
                                                 command = Some (cstring cmd), status = st\<rparr>],
              next_job_id := c_int (next_job_id s + 1),
              num_jobs := num_jobs s + 1\<rparr>)"
proof -
  note fi = first_index_Some [OF assms(2)]
  have "count_jobs s < length (job_table s)"
  proof -
    have "length (filter (\<lambda>j. job_id j \<noteq> 0) (job_table s)) < length (job_table s)"
      using fi by (intro length_filter_less [of "job_table s ! slot"]) simp_all
    then show ?thesis by (simp add: count_jobs_def)
  qed
  then have lt: "num_jobs s < int MAX_JOBS"
    using assms(1) by (simp add: jobs_inv_def)
  have ge: "0 \<le> num_jobs s"
    using assms(1) by (simp add: jobs_inv_def)
  have w: "c_int (num_jobs s + 1) = num_jobs s + 1"
    using lt ge by (intro c_int_id) (simp_all add: MAX_JOBS_def)
  have rec: "(job_table s ! slot)\<lparr>job_id := next_job_id s, pgid := pg,
                command := Some (cstring cmd), status := st\<rparr>
             = \<lparr>job_id = next_job_id s, pgid = pg, command = Some (cstring cmd), status = st\<rparr>"
    by (cases "job_table s ! slot") simp
  show ?thesis
    using assms(2) lt by (simp add: add_job_def Let_def w rec)
qed








lemma init_jobs_inv: "jobs_inv init_jobs"
  by (simp add: jobs_inv_def init_jobs_def count_jobs_def)


lemma first_index_replicate:
  "0 < n \<Longrightarrow> P x \<Longrightarrow> first_index P (replicate n x) = Some 0"
  by (cases n) simp_all




text \<open>
  Claim C7, as amended. On a table that satisfies the invariant: when the table already
  holds 100 entries, \<open>add_job\<close> returns the failure value -1 and leaves the table and the
  counters unchanged; otherwise, when the command string can be copied, it stores the
  new job in the lowest-indexed unused slot, returns the job ID it has taken from
  \<open>next_job_id\<close>, and increments \<open>next_job_id\<close> and \<open>num_jobs\<close>. When the string cannot
  be copied it returns -1 as well.
\<close>

theorem add_job_result:
  assumes "jobs_inv s"
  shows "(count_jobs s = MAX_JOBS \<longrightarrow> add_job ok pg cmd st s = (- 1, s))
         \<and> (count_jobs s \<noteq> MAX_JOBS \<longrightarrow>
              (\<exists>slot<MAX_JOBS. job_id (job_table s ! slot) = 0
                 \<and> (\<forall>i<slot. job_id (job_table s ! i) \<noteq> 0)
                 \<and> add_job True pg cmd st s =
                     (next_job_id s,
                      s\<lparr>job_table := (job_table s)[slot := \<lparr>job_id = next_job_id s, pgid = pg,
                                    command = Some (cstring cmd), status = st\<rparr>],
                        next_job_id := c_int (next_job_id s + 1),
                        num_jobs := num_jobs s + 1\<rparr>)))
         \<and> fst (add_job False pg cmd st s) = - 1"
proof (intro conjI impI)
  assume "count_jobs s = MAX_JOBS"
  then show "add_job ok pg cmd st s = (- 1, s)"
    using assms by (intro add_job_full) (simp add: jobs_inv_def)
next
  assume "count_jobs s \<noteq> MAX_JOBS"
  then have "count_jobs s < length (job_table s)"
    using assms count_le_length [of s] by (simp add: jobs_inv_def)
  then obtain slot where slot: "first_index (\<lambda>j. job_id j = 0) (job_table s) = Some slot"
    using free_slot_exists by blast
  note fi = first_index_Some [OF slot]
  show "\<exists>slot<MAX_JOBS. job_id (job_table s ! slot) = 0
                 \<and> (\<forall>i<slot. job_id (job_table s ! i) \<noteq> 0)
                 \<and> add_job True pg cmd st s =
                     (next_job_id s,
                      s\<lparr>job_table := (job_table s)[slot := \<lparr>job_id = next_job_id s, pgid = pg,
                                    command = Some (cstring cmd), status = st\<rparr>],
                        next_job_id := c_int (next_job_id s + 1),
                        num_jobs := num_jobs s + 1\<rparr>)"
    using fi assms add_job_stores [OF assms slot, of pg cmd st]
    by (intro exI [of _ slot]) (simp add: jobs_inv_def)
next
  show "fst (add_job False pg cmd st s) = - 1"
    by (simp add: add_job_def Let_def split: option.splits)
qed

lemma full_table_inv: "jobs_inv full_table \<and> count_jobs full_table = MAX_JOBS"
proof -
  have "filter (\<lambda>j. job_id j \<noteq> 0) (job_table full_table) = job_table full_table"
    by (auto simp: full_table_def filter_id_conv)
  then show ?thesis
    by (simp add: jobs_inv_def count_jobs_def) (simp add: full_table_def MAX_JOBS_def)
qed

text \<open>A call on the full table, and the first call on the initial table.\<close>

theorem add_job_result_witness:
  "add_job True 4243 ''ls'' JOB_RUNNING full_table = (- 1, full_table)
   \<and> add_job True 1234 ''sleep 10'' JOB_RUNNING init_jobs
     = (1, init_jobs\<lparr>job_table := (job_table init_jobs)
                         [0 := \<lparr>job_id = 1, pgid = 1234, command = Some ''sleep 10'',
                                status = JOB_RUNNING\<rparr>],
                     next_job_id := 2, num_jobs := 1\<rparr>)"
proof -
  have full: "add_job True 4243 ''ls'' JOB_RUNNING full_table = (- 1, full_table)"
    using add_job_result [of full_table True 4243 "''ls''" JOB_RUNNING] full_table_inv by simp
  have "count_jobs init_jobs \<noteq> MAX_JOBS"
    by (simp add: count_jobs_def init_jobs_def MAX_JOBS_def)
  then obtain slot where slot: "job_id (job_table init_jobs ! slot) = 0"
      "\<forall>i<slot. job_id (job_table init_jobs ! i) \<noteq> 0"
      "add_job True 1234 ''sleep 10'' JOB_RUNNING init_jobs =
         (next_job_id init_jobs,
          init_jobs\<lparr>job_table := (job_table init_jobs)[slot := \<lparr>job_id = next_job_id init_jobs,
                        pgid = 1234, command = Some (cstring ''sleep 10''), status = JOB_RUNNING\<rparr>],
            next_job_id := c_int (next_job_id init_jobs + 1),
            num_jobs := num_jobs init_jobs + 1\<rparr>)"
    using add_job_result [of init_jobs True 1234 "''sleep 10''" JOB_RUNNING] init_jobs_inv
    by blast
  have "slot = 0"
  proof (rule ccontr)
    assume "slot \<noteq> 0"
    then have "job_id (job_table init_jobs ! 0) \<noteq> 0" using slot(2) by simp
    then show False by (simp add: init_jobs_def MAX_JOBS_def)
  qed
  then show ?thesis
    using full slot(3) by (simp add: init_jobs_def c_int_def cstring_def)
qed

text \<open>
  Claim C7 as it was stated fails when \<open>strdup\<close> fails: on the initial table, which holds
  no entry, \<open>add_job\<close> returns -1, and the table is not what it was: slot 0 holds the job
  ID 1 and the process group, and \<open>next_job_id\<close> is 2.
\<close>

theorem add_job_strdup_failure:
  "add_job False 1234 ''sleep 10'' JOB_RUNNING init_jobs
     = (- 1, init_jobs\<lparr>job_table := (job_table init_jobs)
                          [0 := \<lparr>job_id = 1, pgid = 1234, command = None, status = JOB_DONE\<rparr>],
                      next_job_id := 2\<rparr>)
   \<and> count_jobs init_jobs = 0
   \<and> snd (add_job False 1234 ''sleep 10'' JOB_RUNNING init_jobs) \<noteq> init_jobs"
proof -
  have a: "add_job False 1234 ''sleep 10'' JOB_RUNNING init_jobs
     = (- 1, init_jobs\<lparr>job_table := (job_table init_jobs)
                          [0 := \<lparr>job_id = 1, pgid = 1234, command = None, status = JOB_DONE\<rparr>],
                      next_job_id := 2\<rparr>)"
    by (simp add: add_job_def init_jobs_def MAX_JOBS_def first_index_replicate c_int_def)
  have "next_job_id (snd (add_job False 1234 ''sleep 10'' JOB_RUNNING init_jobs)) = 2"
    unfolding a by simp
  moreover have "next_job_id init_jobs = 1"
    by (simp add: init_jobs_def)
  ultimately have "snd (add_job False 1234 ''sleep 10'' JOB_RUNNING init_jobs) \<noteq> init_jobs"
    by auto
  then show ?thesis
    using a by (simp add: count_jobs_def init_jobs_def)
qed

section \<open>Properties of the executor\<close>



lemma fork_all_nohang [simp]: "fork_all (y\<lparr>waitpid_nohang := f\<rparr>) is = fork_all y is"
  by (induction "is") (simp_all add: Let_def)











end
